theory Spec2Isabelle
  imports Main "HOL-Library.Sublist"
begin

section \<open>Python values\<close>

text \<open>
  A Python \<open>str\<close> is a sequence of Unicode code points, a \<open>bytes\<close> object a sequence
  of octets. The first is modelled as a list of naturals, the second as a HOL
  \<open>string\<close> (a list of 8-bit characters). \<open>py\<close> turns an ASCII literal of the
  source into the \<open>str\<close> it denotes.
\<close>

type_synonym pstr = "nat list"

type_synonym bytes = "string"

definition py :: "string \<Rightarrow> pstr" where
  "py s = map of_char s"

text \<open>\<open>sep.join(xs)\<close>.\<close>

fun join :: "pstr \<Rightarrow> pstr list \<Rightarrow> pstr" where
  "join sep [] = []"
| "join sep [x] = x"
| "join sep (x # y # ys) = x @ sep @ join sep (y # ys)"

text \<open>
  \<open>k.lower()\<close> on the header names of a parsed message. The parser only admits
  printable ASCII in a header name, where \<open>lower\<close> moves \<open>A\<close>..\<open>Z\<close> to \<open>a\<close>..\<open>z\<close>
  and leaves the rest.
\<close>

definition lower :: "pstr \<Rightarrow> pstr" where
  "lower s = map (\<lambda>c. if 65 \<le> c \<and> c \<le> 90 then c + 32 else c) s"

text \<open>
  \<open>str(payload)\<close> of a \<open>bytes\<close> object is its \<open>repr\<close>: \<open>b'...'\<close>, quoted with
  \<open>"\<close> instead when the bytes hold a \<open>'\<close> and no \<open>"\<close>; the quote and the
  backslash are escaped, tab, newline and carriage return are written \<open>\t\<close>, \<open>\n\<close>,
  \<open>\r\<close>, and every other octet outside \<open>0x20..0x7e\<close> as \<open>\xNN\<close>.
\<close>

definition hex_digit :: "nat \<Rightarrow> nat" where
  "hex_digit d = (if d < 10 then 48 + d else 87 + d)"

definition repr_byte :: "nat \<Rightarrow> nat \<Rightarrow> pstr" where
  "repr_byte quote c =
     (if c = quote \<or> c = 92 then [92, c]
      else if c = 9 then [92, 116]
      else if c = 10 then [92, 110]
      else if c = 13 then [92, 114]
      else if c < 32 \<or> 127 \<le> c then [92, 120, hex_digit (c div 16), hex_digit (c mod 16)]
      else [c])"

definition bytes_repr :: "bytes \<Rightarrow> pstr" where
  "bytes_repr b =
     (let cs = map of_char b;
          quote = (if 39 \<in> set cs \<and> 34 \<notin> set cs then 34 else 39)
      in [98, quote] @ concat (map (repr_byte quote) cs) @ [quote])"

section \<open>The clock\<close>

text \<open>
  \<open>time.strftime("%Y-%m-%d %H:%M:%S")\<close> formats the local time: the year in decimal,
  the other fields as two decimal digits.
\<close>

record struct_time =
  tm_year :: nat
  tm_mon :: nat
  tm_mday :: nat
  tm_hour :: nat
  tm_min :: nat
  tm_sec :: nat

fun decimal :: "nat \<Rightarrow> pstr" where
  "decimal n = (if n < 10 then [48 + n] else decimal (n div 10) @ [48 + n mod 10])"

definition two_digits :: "nat \<Rightarrow> pstr" where
  "two_digits n = [48 + n div 10 mod 10, 48 + n mod 10]"

definition strftime :: "struct_time \<Rightarrow> pstr" where
  "strftime t =
     decimal (tm_year t) @ py ''-'' @ two_digits (tm_mon t) @ py ''-'' @ two_digits (tm_mday t)
     @ py '' '' @ two_digits (tm_hour t) @ py '':'' @ two_digits (tm_min t) @ py '':''
     @ two_digits (tm_sec t)"

section \<open>Messages as the \<open>email\<close> package delivers them\<close>

text \<open>
  A parsed message is a tree. Each node carries its header list and what the accessors
  of \<open>email.message.Message\<close> answer for it: \<open>get_content_maintype()\<close>,
  \<open>get_filename()\<close>, \<open>get_content_charset()\<close>. A node is either a single part,
  holding what \<open>get_payload(decode=True)\<close> returns for it (the payload after its
  transfer encoding is undone, or \<open>None\<close>), or a container holding its sub-parts.
  Header values are taken to be of type \<open>str\<close>.
\<close>

record part_info =
  headers :: "(pstr \<times> pstr) list"
  get_content_maintype :: pstr
  get_filename :: "pstr option"
  get_content_charset :: "pstr option"

datatype message =
    Single part_info "bytes option"
  | Multipart part_info "message list"

fun info :: "message \<Rightarrow> part_info" where
  "info (Single i p) = i"
| "info (Multipart i ps) = i"

fun is_multipart :: "message \<Rightarrow> bool" where
  "is_multipart (Single i p) = False"
| "is_multipart (Multipart i ps) = True"

text \<open>\<open>get_payload(decode=True)\<close>: \<open>None\<close> for a container.\<close>

fun get_payload_decode :: "message \<Rightarrow> bytes option" where
  "get_payload_decode (Single i p) = p"
| "get_payload_decode (Multipart i ps) = None"

text \<open>\<open>walk()\<close>: the node itself, then its sub-parts, depth first in document order.\<close>

fun walk :: "message \<Rightarrow> message list" where
  "walk (Single i p) = [Single i p]"
| "walk (Multipart i ps) = Multipart i ps # concat (map walk ps)"

text \<open>\<open>msg.get(name, failobj)\<close>: the value of the first header of that name, compared
  without regard to case, and \<open>failobj\<close> when there is none.\<close>

fun get_header :: "(pstr \<times> pstr) list \<Rightarrow> pstr \<Rightarrow> pstr option" where
  "get_header [] name = None"
| "get_header ((k, v) # hs) name =
     (if lower k = lower name then Some v else get_header hs name)"

definition msg_get :: "message \<Rightarrow> pstr \<Rightarrow> pstr \<Rightarrow> pstr" where
  "msg_get m name failobj =
     (case get_header (headers (info m)) name of None \<Rightarrow> failobj | Some v \<Rightarrow> v)"

section \<open>JSON text of a list of strings\<close>

text \<open>
  \<open>json.dumps(attachments)\<close> for a list of \<open>str\<close>, with the defaults of the
  encoder (\<open>ensure_ascii\<close>, items separated by a comma and a space): inside the
  quotes, \<open>"\<close> and \<open>\\<close> are escaped with a backslash, backspace, form feed, newline,
  carriage return and tab are written \<open>\b \f \n \r \t\<close>, every other code point
  outside \<open>0x20..0x7e\<close> as \<open>\uXXXX\<close>, and one beyond the basic plane as the two
  escapes of its surrogate pair.
\<close>

definition hex4 :: "nat \<Rightarrow> pstr" where
  "hex4 n = [hex_digit (n div 4096 mod 16), hex_digit (n div 256 mod 16),
             hex_digit (n div 16 mod 16), hex_digit (n mod 16)]"

definition u_escape :: "nat \<Rightarrow> pstr" where
  "u_escape n = [92, 117] @ hex4 n"

definition escape_char :: "nat \<Rightarrow> pstr" where
  "escape_char c =
     (if c = 92 then [92, 92]
      else if c = 34 then [92, 34]
      else if c = 8 then [92, 98]
      else if c = 12 then [92, 102]
      else if c = 10 then [92, 110]
      else if c = 13 then [92, 114]
      else if c = 9 then [92, 116]
      else if 32 \<le> c \<and> c \<le> 126 then [c]
      else if c < 65536 then u_escape c
      else (let n = c - 65536
            in u_escape (55296 + n div 1024 mod 1024) @ u_escape (56320 + n mod 1024)))"

definition encode_str :: "pstr \<Rightarrow> pstr" where
  "encode_str s = [34] @ concat (map escape_char s) @ [34]"

definition json_dumps :: "pstr list \<Rightarrow> pstr" where
  "json_dumps xs = [91] @ join (py '', '') (map encode_str xs) @ [93]"

text \<open>
  \<open>json.loads(text)\<close>, as far as this program needs it: the decoder for an array
  of strings. \<open>None\<close> stands for a text that is not such an array (the decoder raises
  \<open>JSONDecodeError\<close>, or returns a value of another shape, which this program never
  stores).
\<close>

definition is_ws :: "nat \<Rightarrow> bool" where
  "is_ws c = (c = 32 \<or> c = 9 \<or> c = 10 \<or> c = 13)"

definition hexval :: "nat \<Rightarrow> nat option" where
  "hexval c =
     (if 48 \<le> c \<and> c \<le> 57 then Some (c - 48)
      else if 97 \<le> c \<and> c \<le> 102 then Some (c - 87)
      else if 65 \<le> c \<and> c \<le> 70 then Some (c - 55)
      else None)"

text \<open>The four hexadecimal digits after \<open>\u\<close>.\<close>

definition decode_uXXXX :: "pstr \<Rightarrow> nat option" where
  "decode_uXXXX ds =
     (case map hexval ds of
        [Some a, Some b, Some c, Some d] \<Rightarrow> Some (((a * 16 + b) * 16 + c) * 16 + d)
      | _ \<Rightarrow> None)"

definition unescape :: "nat \<Rightarrow> nat option" where
  "unescape e =
     (if e = 34 then Some 34
      else if e = 92 then Some 92
      else if e = 47 then Some 47
      else if e = 98 then Some 8
      else if e = 102 then Some 12
      else if e = 110 then Some 10
      else if e = 114 then Some 13
      else if e = 116 then Some 9
      else None)"

text \<open>
  One escape of a string, entered after its backslash: the code point it denotes and
  the text after it. A high surrogate escape directly followed by a low surrogate
  escape is read as the one code point of the pair.
\<close>

definition scan_escape :: "pstr \<Rightarrow> (nat \<times> pstr) option" where
  "scan_escape cs =
     (case cs of
        [] \<Rightarrow> None
      | e # es \<Rightarrow>
          if e \<noteq> 117 then
            (case unescape e of None \<Rightarrow> None | Some ch \<Rightarrow> Some (ch, es))
          else
            (case decode_uXXXX (take 4 es) of
               None \<Rightarrow> None
             | Some uni \<Rightarrow>
                 let r = drop 4 es in
                 if 55296 \<le> uni \<and> uni \<le> 56319 \<and> take 2 r = [92, 117] then
                   (case decode_uXXXX (take 4 (drop 2 r)) of
                      None \<Rightarrow> None
                    | Some uni2 \<Rightarrow>
                        if 56320 \<le> uni2 \<and> uni2 \<le> 57343 then
                          Some (65536 + ((uni - 55296) * 1024 + (uni2 - 56320)), drop 6 r)
                        else Some (uni, r))
                 else Some (uni, r)))"

definition cons_char :: "nat \<Rightarrow> (pstr \<times> pstr) option \<Rightarrow> (pstr \<times> pstr) option" where
  "cons_char c r = (case r of None \<Rightarrow> None | Some (s, rest) \<Rightarrow> Some (c # s, rest))"

lemma scan_escape_shorter:
  "scan_escape cs = Some (ch, r) \<Longrightarrow> length r < length cs"
  by (cases cs) (auto simp: scan_escape_def Let_def split: if_splits option.splits)

text \<open>
  \<open>scanstring\<close>, entered after the opening quote: the decoded string and the text
  after the closing quote. A control character inside the quotes is refused.
\<close>

function scanstring :: "pstr \<Rightarrow> (pstr \<times> pstr) option" where
  "scanstring [] = None"
| "scanstring (c # cs) =
     (if c = 34 then Some ([], cs)
      else if c < 32 then None
      else if c \<noteq> 92 then cons_char c (scanstring cs)
      else (case scan_escape cs of
              None \<Rightarrow> None
            | Some (ch, r) \<Rightarrow> cons_char ch (scanstring r)))"
  by pat_completeness auto
termination
  by (relation "measure length") (auto dest: scan_escape_shorter)

lemma cons_char_Some:
  "cons_char c x = Some (v, r) \<Longrightarrow> \<exists>v'. x = Some (v', r)"
  by (cases x) (auto simp: cons_char_def)

lemma scanstring_shorter:
  "scanstring s = Some (v, r) \<Longrightarrow> length r < length s"
proof (induction s arbitrary: v rule: scanstring.induct)
  case 1
  then show ?case by simp
next
  case (2 c cs)
  show ?case
  proof (cases "c = 34")
    case True
    with 2 show ?thesis by simp
  next
    case n34: False
    show ?thesis
    proof (cases "c = 92")
      case False
      with n34 2 show ?thesis
        by (auto split: if_splits dest!: cons_char_Some)
    next
      case True
      with n34 "2.prems" obtain ch r0 where e: "scan_escape cs = Some (ch, r0)"
        and c: "cons_char ch (scanstring r0) = Some (v, r)"
        by (auto split: if_splits option.splits)
      from c obtain v' where "scanstring r0 = Some (v', r)"
        by (auto dest!: cons_char_Some)
      with "2.IH"(2) [OF n34 _ _ e] True have "length r < length r0" by auto
      with scan_escape_shorter [OF e] show ?thesis by simp
    qed
  qed
qed

text \<open>
  The items of an array, entered where a value is expected: the strings up to the
  closing bracket, and the text after it.
\<close>

function parse_items :: "pstr \<Rightarrow> (pstr list \<times> pstr) option" where
  "parse_items s =
     (case s of
        [] \<Rightarrow> None
      | q # cs \<Rightarrow>
          if q \<noteq> 34 then None
          else (case scanstring cs of
                  None \<Rightarrow> None
                | Some (v, r) \<Rightarrow>
                    (case dropWhile is_ws r of
                       [] \<Rightarrow> None
                     | d # r' \<Rightarrow>
                         if d = 93 then Some ([v], r')
                         else if d \<noteq> 44 then None
                         else (case parse_items (dropWhile is_ws r') of
                                 None \<Rightarrow> None
                               | Some (vs, r'') \<Rightarrow> Some (v # vs, r'')))))"
  by pat_completeness auto
termination
proof (relation "measure length", goal_cases)
  case 1
  show ?case by simp
next
  case (2 s q cs x v r d r')
  have "length (dropWhile is_ws r') \<le> length r'"
    by (rule length_dropWhile_le)
  moreover have "length (d # r') \<le> length r"
    using 2 length_dropWhile_le [of is_ws r] by simp
  moreover have "length r < length cs"
    using 2 by (auto intro: scanstring_shorter)
  ultimately show ?case
    using 2 by simp
qed

declare parse_items.simps [simp del]

definition json_loads :: "pstr \<Rightarrow> pstr list option" where
  "json_loads s =
     (case dropWhile is_ws s of
        [] \<Rightarrow> None
      | b # cs \<Rightarrow>
          if b \<noteq> 91 then None
          else (case dropWhile is_ws cs of
                  [] \<Rightarrow> None
                | c # cs' \<Rightarrow>
                    (case (if c = 93 then Some ([], cs') else parse_items (c # cs')) of
                       None \<Rightarrow> None
                     | Some (vs, r) \<Rightarrow> if dropWhile is_ws r = [] then Some vs else None)))"

text \<open>
  The code points that the encoder and the decoder carry through unchanged wherever
  they stand: those of a \<open>str\<close> that are no high surrogate (a high surrogate followed
  by a low one would be read back as the one code point of the pair).
\<close>

definition json_safe :: "nat \<Rightarrow> bool" where
  "json_safe c = (c < 1114112 \<and> (c < 55296 \<or> 56319 < c))"

section \<open>The message record store\<close>

text \<open>
  The table \<open>emails\<close> of \<open>init_db\<close>: one row per message, in the order of insertion,
  and the counter that \<open>AUTOINCREMENT\<close> keeps of the largest id ever given.
\<close>

record row =
  row_id :: nat
  row_sender :: pstr
  row_recipients :: pstr
  row_subject :: pstr
  row_body :: pstr
  row_date :: pstr
  row_attachments :: pstr

record database =
  emails :: "row list"
  sqlite_sequence :: nat

text \<open>\<open>CREATE TABLE IF NOT EXISTS\<close>: an empty table where there is none
  (\<open>None\<close>), the table as it is otherwise.\<close>

definition init_db :: "database option \<Rightarrow> database" where
  "init_db d = (case d of None \<Rightarrow> \<lparr>emails = [], sqlite_sequence = 0\<rparr> | Some t \<Rightarrow> t)"

definition max_rowid :: "row list \<Rightarrow> nat" where
  "max_rowid rs = fold max (map row_id rs) 0"

section \<open>The environment of a session\<close>

text \<open>
  What the handler takes from outside the repository: the parser of the \<open>email\<close>
  package (\<open>Inl\<close> the text of the exception it raised), the codecs behind
  \<open>payload.decode(charset, errors="replace")\<close> (\<open>None\<close> when the call raises, as
  it does with \<open>LookupError\<close> for a charset that names no codec), the local time,
  whether \<open>open(filepath, "wb")\<close> succeeds on a path, and whether the \<open>INSERT\<close>
  and its commit succeed.
\<close>

record env =
  message_from_bytes :: "bytes \<Rightarrow> pstr + message"
  decode :: "pstr \<Rightarrow> bytes \<Rightarrow> pstr option"
  localtime :: struct_time
  open_ok :: "pstr \<Rightarrow> bool"
  insert_ok :: bool

record envelope =
  content :: bytes
  mail_from :: pstr
  rcpt_tos :: "pstr list"

text \<open>The state a session works on: the database, the files on disk by path, and
  what was printed.\<close>

record store =
  db :: database
  files :: "pstr \<rightharpoonup> bytes"
  stdout :: "pstr list"

datatype error =
  OSError | TypeError | UnicodeEncodeError | ValueError | DatabaseError | JSONDecodeError

text \<open>
  \<open>save_email_to_db\<close>. The new row takes the id after the largest one ever used;
  the insertion fails when the environment refuses it or the ids of a 64-bit
  \<open>rowid\<close> are used up.
\<close>

definition next_id :: "database \<Rightarrow> nat" where
  "next_id d = Suc (max (sqlite_sequence d) (max_rowid (emails d)))"

definition can_insert :: "env \<Rightarrow> database \<Rightarrow> bool" where
  "can_insert ev d = (insert_ok ev \<and> next_id d \<le> 9223372036854775807)"

definition save_email_to_db ::
  "env \<Rightarrow> pstr \<Rightarrow> pstr \<Rightarrow> pstr \<Rightarrow> pstr \<Rightarrow> pstr \<Rightarrow> pstr list \<Rightarrow> database \<Rightarrow> error + database" where
  "save_email_to_db ev sender recipients subject body date_str attachments d =
     (let attachments_json = json_dumps attachments;
          new_id = next_id d
      in if \<not> can_insert ev d then Inl DatabaseError
         else Inr \<lparr>emails = emails d @
                      [\<lparr>row_id = new_id, row_sender = sender, row_recipients = recipients,
                        row_subject = subject, row_body = body, row_date = date_str,
                        row_attachments = attachments_json\<rparr>],
                    sqlite_sequence = new_id\<rparr>)"

section \<open>The SMTP handler\<close>

definition ATTACHMENTS_DIR :: pstr where
  "ATTACHMENTS_DIR = py ''attachments''"

text \<open>\<open>os.path.join(a, b)\<close> of \<open>posixpath\<close>.\<close>

definition os_path_join :: "pstr \<Rightarrow> pstr \<Rightarrow> pstr" where
  "os_path_join a b =
     (if take 1 b = [47] then b
      else if a = [] \<or> last a = 47 then a @ b
      else a @ [47] @ b)"

text \<open>
  \<open>open\<close> encodes the path for the file system before anything is written. With
  the UTF-8 file system encoding of a POSIX host and its \<open>surrogateescape\<close> error
  handler, a surrogate code point outside \<open>U+DC80..U+DCFF\<close> cannot be encoded
  (\<open>UnicodeEncodeError\<close>), and a path with a NUL character is refused
  (\<open>ValueError\<close>).
\<close>

definition fs_encodable :: "pstr \<Rightarrow> bool" where
  "fs_encodable p =
     list_all (\<lambda>c. c < 1114112 \<and> (c < 55296 \<or> 57343 < c \<or> (56448 \<le> c \<and> c < 56576))) p"

text \<open>
  The \<open>try\<close> around \<open>payload.decode(charset or "utf-8", errors="replace")\<close>: the
  text of the payload, and \<open>str(payload)\<close> when the call raises.
\<close>

definition charset_or_utf8 :: "pstr option \<Rightarrow> pstr" where
  "charset_or_utf8 charset =
     (case charset of None \<Rightarrow> py ''utf-8'' | Some c \<Rightarrow> if c = [] then py ''utf-8'' else c)"

definition decode_text :: "env \<Rightarrow> pstr option \<Rightarrow> bytes \<Rightarrow> pstr" where
  "decode_text ev charset payload =
     (case decode ev (charset_or_utf8 charset) payload of
        Some text \<Rightarrow> text
      | None \<Rightarrow> bytes_repr payload)"

text \<open>
  The body of the loop over \<open>msg.walk()\<close>, on the body text and the attachment list
  gathered so far and the files on disk. An exception leaves the loop; the files
  written before it stay, and \<open>open\<close> has emptied the file when \<open>f.write(None)\<close>
  raises \<open>TypeError\<close>.
\<close>

definition handle_part ::
  "env \<Rightarrow> message \<Rightarrow> pstr \<Rightarrow> pstr list \<Rightarrow> (pstr \<rightharpoonup> bytes) \<Rightarrow>
   (error + pstr \<times> pstr list) \<times> (pstr \<rightharpoonup> bytes)" where
  "handle_part ev part body attachments fs =
     (let content_disposition = msg_get part (py ''Content-Disposition'') [] in
      if get_content_maintype (info part) = py ''multipart'' then (Inr (body, attachments), fs)
      else if sublist (py ''attachment'') content_disposition then
        (case get_filename (info part) of
           None \<Rightarrow> (Inr (body, attachments), fs)
         | Some filename \<Rightarrow>
             if filename = [] then (Inr (body, attachments), fs)
             else
               (let filepath = os_path_join ATTACHMENTS_DIR filename in
                if \<not> fs_encodable filepath then (Inl UnicodeEncodeError, fs)
                else if 0 \<in> set filepath then (Inl ValueError, fs)
                else if \<not> open_ok ev filepath then (Inl OSError, fs)
                else (case get_payload_decode part of
                        None \<Rightarrow> (Inl TypeError, fs(filepath \<mapsto> []))
                      | Some data \<Rightarrow>
                          (Inr (body, attachments @ [filepath]), fs(filepath \<mapsto> data)))))
      else
        (case get_payload_decode part of
           None \<Rightarrow> (Inr (body, attachments), fs)
         | Some payload \<Rightarrow>
             if payload = [] then (Inr (body, attachments), fs)
             else (Inr (body @ decode_text ev (get_content_charset (info part)) payload,
                        attachments), fs)))"

fun handle_parts ::
  "env \<Rightarrow> message list \<Rightarrow> pstr \<Rightarrow> pstr list \<Rightarrow> (pstr \<rightharpoonup> bytes) \<Rightarrow>
   (error + pstr \<times> pstr list) \<times> (pstr \<rightharpoonup> bytes)" where
  "handle_parts ev [] body attachments fs = (Inr (body, attachments), fs)"
| "handle_parts ev (part # parts) body attachments fs =
     (case handle_part ev part body attachments fs of
        (Inl e, fs') \<Rightarrow> (Inl e, fs')
      | (Inr (body', attachments'), fs') \<Rightarrow> handle_parts ev parts body' attachments' fs')"

text \<open>The body and the attachments of a message: the loop for a multipart message,
  the payload of the message itself otherwise.\<close>

definition body_and_attachments ::
  "env \<Rightarrow> message \<Rightarrow> (pstr \<rightharpoonup> bytes) \<Rightarrow> (error + pstr \<times> pstr list) \<times> (pstr \<rightharpoonup> bytes)" where
  "body_and_attachments ev msg fs =
     (if is_multipart msg then handle_parts ev (walk msg) [] [] fs
      else (case get_payload_decode msg of
              None \<Rightarrow> (Inr ([], []), fs)
            | Some payload \<Rightarrow>
                if payload = [] then (Inr ([], []), fs)
                else (Inr (decode_text ev (get_content_charset (info msg)) payload, []), fs)))"

text \<open>
  \<open>handle_DATA\<close>: the reply it returns (\<open>Inr\<close>) or the exception that leaves it
  (\<open>Inl\<close>), and the state afterwards.
\<close>

definition handle_DATA :: "env \<Rightarrow> envelope \<Rightarrow> store \<Rightarrow> (error + pstr) \<times> store" where
  "handle_DATA ev envelope st =
     (case message_from_bytes ev (content envelope) of
        Inl e \<Rightarrow>
          (Inr (py ''550 Error''),
           st\<lparr>stdout := stdout st @ [py ''Error parsing message: '' @ e]\<rparr>)
      | Inr msg \<Rightarrow>
          (let sender = msg_get msg (py ''From'') (mail_from envelope);
               recipients = msg_get msg (py ''To'') (join (py '', '') (rcpt_tos envelope));
               subject = msg_get msg (py ''Subject'') (py ''(No Subject)'');
               date_str = msg_get msg (py ''Date'') (strftime (localtime ev))
           in case body_and_attachments ev msg (files st) of
                (Inl e, fs) \<Rightarrow> (Inl e, st\<lparr>files := fs\<rparr>)
              | (Inr (body, attachments), fs) \<Rightarrow>
                  (case save_email_to_db ev sender recipients subject body date_str
                          attachments (db st) of
                     Inl e \<Rightarrow> (Inl e, st\<lparr>files := fs\<rparr>)
                   | Inr d \<Rightarrow>
                       (Inr (py ''250 Message accepted for delivery''),
                        st\<lparr>db := d, files := fs,
                           stdout := stdout st @
                             [py ''Saved email from '' @ sender @ py '' with subject '' @ [39]
                              @ subject @ [39]]\<rparr>))))"

section \<open>The inbox\<close>

record email =
  em_sender :: pstr
  em_recipients :: pstr
  em_subject :: pstr
  em_body :: pstr
  em_date :: pstr
  em_attachments :: "pstr list"

text \<open>\<open>SELECT ... FROM emails ORDER BY id DESC\<close>.\<close>

definition select_emails :: "database \<Rightarrow> row list" where
  "select_emails d = rev (sort_key row_id (emails d))"

text \<open>The loop over the rows; \<open>json.loads\<close> raises on a text it cannot read.\<close>

fun load_rows :: "row list \<Rightarrow> error + email list" where
  "load_rows [] = Inr []"
| "load_rows (r # rows) =
     (case (if row_attachments r = [] then Some [] else json_loads (row_attachments r)) of
        None \<Rightarrow> Inl JSONDecodeError
      | Some attachments \<Rightarrow>
          (case load_rows rows of
             Inl e \<Rightarrow> Inl e
           | Inr ems \<Rightarrow>
               Inr (\<lparr>em_sender = row_sender r, em_recipients = row_recipients r,
                     em_subject = row_subject r, em_body = row_body r, em_date = row_date r,
                     em_attachments = attachments\<rparr> # ems)))"

definition inbox :: "store \<Rightarrow> error + email list" where
  "inbox st = load_rows (select_emails (db st))"

section \<open>The parts of a message, by what the loop does with them\<close>

definition is_container :: "message \<Rightarrow> bool" where
  "is_container part = (get_content_maintype (info part) = py ''multipart'')"

definition attachment_disposition :: "message \<Rightarrow> bool" where
  "attachment_disposition part =
     sublist (py ''attachment'') (msg_get part (py ''Content-Disposition'') [])"

definition named :: "message \<Rightarrow> bool" where
  "named part = (case get_filename (info part) of None \<Rightarrow> False | Some f \<Rightarrow> f \<noteq> [])"

definition is_attachment :: "message \<Rightarrow> bool" where
  "is_attachment part = (\<not> is_container part \<and> attachment_disposition part \<and> named part)"

definition is_body_part :: "message \<Rightarrow> bool" where
  "is_body_part part = (\<not> is_container part \<and> \<not> attachment_disposition part)"

definition attachment_path :: "message \<Rightarrow> pstr" where
  "attachment_path part =
     (case get_filename (info part) of
        None \<Rightarrow> []
      | Some f \<Rightarrow> os_path_join ATTACHMENTS_DIR f)"

text \<open>The text a body part adds to the body.\<close>

definition part_text :: "env \<Rightarrow> message \<Rightarrow> pstr" where
  "part_text ev part =
     (case get_payload_decode part of
        None \<Rightarrow> []
      | Some payload \<Rightarrow>
          if payload = [] then []
          else decode_text ev (get_content_charset (info part)) payload)"

text \<open>Whether the file of an attachment part can be written.\<close>

definition writable :: "env \<Rightarrow> message \<Rightarrow> bool" where
  "writable ev part =
     (fs_encodable (attachment_path part) \<and> 0 \<notin> set (attachment_path part)
      \<and> open_ok ev (attachment_path part) \<and> get_payload_decode part \<noteq> None)"

text \<open>The files after the attachment parts of a list have been written in turn.\<close>

fun write_all :: "message list \<Rightarrow> (pstr \<rightharpoonup> bytes) \<Rightarrow> (pstr \<rightharpoonup> bytes)" where
  "write_all [] fs = fs"
| "write_all (part # parts) fs =
     write_all parts (fs(attachment_path part := get_payload_decode part))"

section \<open>Sample data\<close>

text \<open>
  A codec table for the examples: the \<open>ascii\<close> codec under \<open>errors="replace"\<close>,
  which puts \<open>U+FFFD\<close> for every octet from \<open>0x80\<close> on. It answers for \<open>utf-8\<close> as
  well, whose decoder agrees with it on the payloads of the examples (7-bit text,
  and the octet \<open>0xff\<close>, which starts no UTF-8 sequence); any other charset names no
  codec.
\<close>

definition ascii_replace :: "bytes \<Rightarrow> pstr" where
  "ascii_replace b = map (\<lambda>c. if of_char c < (128 :: nat) then of_char c else 65533) b"

definition sample_decode :: "pstr \<Rightarrow> bytes \<Rightarrow> pstr option" where
  "sample_decode charset b =
     (if charset = py ''us-ascii'' \<or> charset = py ''ascii'' \<or> charset = py ''utf-8''
      then Some (ascii_replace b) else None)"

definition sample_time :: struct_time where
  "sample_time = \<lparr>tm_year = 2024, tm_mon = 3, tm_mday = 9, tm_hour = 7, tm_min = 5, tm_sec = 0\<rparr>"

text \<open>An environment whose parser delivers the given message for every content.\<close>

definition sample_env :: "message \<Rightarrow> env" where
  "sample_env m =
     \<lparr>message_from_bytes = (\<lambda>c. Inr m), decode = sample_decode, localtime = sample_time,
      open_ok = (\<lambda>p. True), insert_ok = True\<rparr>"

definition sample_envelope :: envelope where
  "sample_envelope =
     \<lparr>content = ''raw'', mail_from = py ''a@x'', rcpt_tos = [py ''b@y'', py ''c@z'']\<rparr>"

definition empty_store :: store where
  "empty_store = \<lparr>db = init_db None, files = Map.empty, stdout = []\<rparr>"

definition text_part :: "pstr option \<Rightarrow> bytes option \<Rightarrow> message" where
  "text_part charset payload =
     Single \<lparr>headers = [(py ''Content-Type'', py ''text/plain'')],
             get_content_maintype = py ''text'', get_filename = None,
             get_content_charset = charset\<rparr> payload"

definition attachment_part :: "pstr option \<Rightarrow> bytes \<Rightarrow> message" where
  "attachment_part name payload =
     Single \<lparr>headers = [(py ''Content-Type'', py ''application/octet-stream''),
                        (py ''Content-Disposition'', py ''attachment'')],
             get_content_maintype = py ''application'', get_filename = name,
             get_content_charset = None\<rparr> (Some payload)"

definition container :: "(pstr \<times> pstr) list \<Rightarrow> message list \<Rightarrow> message" where
  "container hs parts =
     Multipart \<lparr>headers = hs @ [(py ''Content-Type'', py ''multipart/mixed'')],
                get_content_maintype = py ''multipart'', get_filename = None,
                get_content_charset = None\<rparr> parts"


text \<open>The reply of \<open>handle_DATA\<close> to a message it has stored.\<close>

definition accepted :: pstr where
  "accepted = py ''250 Message accepted for delivery''"


text \<open>A multipart message of two named attachments around a nested container, which
  holds the text and an attachment without a filename.\<close>

definition mixed_message :: message where
  "mixed_message =
     container [(py ''Subject'', py ''Hi'')]
       [attachment_part (Some (py ''a.bin'')) ''AAA'',
        container [] [text_part (Some (py ''us-ascii'')) (Some ''hello''),
                      attachment_part None ''zzz''],
        attachment_part (Some (py ''b.bin'')) ''BBB'']"



definition empty_message :: message where
  "empty_message = text_part None (Some [])"

text \<open>Environments in which no file can be opened for writing, and in which the
  \<open>INSERT\<close> fails.\<close>

definition readonly_env :: "message \<Rightarrow> env" where
  "readonly_env m = (sample_env m)\<lparr>open_ok := (\<lambda>p. False)\<rparr>"

definition dbfail_env :: "message \<Rightarrow> env" where
  "dbfail_env m = (sample_env m)\<lparr>insert_ok := False\<rparr>"

text \<open>Two multipart messages that each attach a file named \<open>a.bin\<close>.\<close>

definition first_message :: message where
  "first_message = container [] [attachment_part (Some (py ''a.bin'')) ''AAA'']"

definition second_message :: message where
  "second_message =
     container [] [text_part None (Some ''see file''), attachment_part (Some (py ''a.bin'')) ''BBB'']"

text \<open>A table after one insertion, and after a second one.\<close>

definition one_row_db :: database where
  "one_row_db =
     \<lparr>emails = [\<lparr>row_id = 1, row_sender = py ''c@z'', row_recipients = py ''b@y'',
                 row_subject = py ''(No Subject)'', row_body = py ''first'',
                 row_date = py ''2024-03-09 07:04:00'', row_attachments = py ''[]''\<rparr>],
      sqlite_sequence = 1\<rparr>"

definition two_row_db :: database where
  "two_row_db =
     \<lparr>emails = emails one_row_db @
                [\<lparr>row_id = 2, row_sender = py ''a@x'', row_recipients = py ''b@y'',
                  row_subject = py ''Hi'', row_body = [],
                  row_date = py ''2024-03-09 07:05:00'', row_attachments = py ''[]''\<rparr>],
      sqlite_sequence = 2\<rparr>"

section \<open>The lifetime of the table\<close>

text \<open>
  The states the table goes through: the empty table that \<open>init_db\<close> creates, and
  what a successful \<open>save_email_to_db\<close> makes of a state reached before.
\<close>

inductive reachable :: "database \<Rightarrow> bool" where
  init: "reachable (init_db None)"
| append: "reachable d \<Longrightarrow>
     save_email_to_db ev sender recipients subject body date_str attachments d = Inr d' \<Longrightarrow>
     reachable d'"

section \<open>Reading back what the encoder wrote\<close>

lemma hexval_hex_digit: "d < 16 \<Longrightarrow> hexval (hex_digit d) = Some d"
  by (simp add: hexval_def hex_digit_def)

lemma hex_arith:
  assumes n: "(n::nat) < 65536"
  shows "((n div 4096 mod 16 * 16 + n div 256 mod 16) * 16 + n div 16 mod 16) * 16 + n mod 16 = n"
proof -
  define a where "a = n div 16"
  define b where "b = a div 16"
  define c where "c = b div 16"
  have d: "n div 16 = a" "n div 256 = b" "n div 4096 = c"
    by (simp_all add: a_def b_def c_def div_mult2_eq)
  have "a < 4096" using n by (simp add: a_def)
  then have "b < 256" by (simp add: b_def)
  then have "c < 16" by (simp add: c_def)
  then have c: "c mod 16 = c" by simp
  have "(c * 16 + b mod 16) = b"
    by (simp add: c_def)
  moreover have "b * 16 + a mod 16 = a"
    by (simp add: b_def)
  moreover have "a * 16 + n mod 16 = n"
    by (simp add: a_def)
  ultimately show ?thesis
    by (simp add: d c)
qed

lemma decode_uXXXX_hex4: "n < 65536 \<Longrightarrow> decode_uXXXX (hex4 n) = Some n"
proof -
  assume n: "n < 65536"
  have "decode_uXXXX (hex4 n) =
          Some (((n div 4096 mod 16 * 16 + n div 256 mod 16) * 16 + n div 16 mod 16) * 16
                + n mod 16)"
    by (simp add: decode_uXXXX_def hex4_def hexval_hex_digit)
  then show ?thesis
    by (simp only: hex_arith [OF n])
qed

lemma length_hex4 [simp]: "length (hex4 n) = 4"
  by (simp add: hex4_def)

lemma scan_escape_u:
  "n < 65536 \<Longrightarrow> n < 55296 \<or> 56319 < n \<Longrightarrow>
   scan_escape (117 # hex4 n @ rest) = Some (n, rest)"
  by (auto simp: scan_escape_def decode_uXXXX_hex4)

lemma scan_escape_pair:
  assumes "55296 \<le> hi" "hi \<le> 56319" "56320 \<le> lo" "lo \<le> 57343"
  shows "scan_escape (117 # hex4 hi @ 92 # 117 # hex4 lo @ rest)
         = Some (65536 + ((hi - 55296) * 1024 + (lo - 56320)), rest)"
proof -
  have "hi < 65536" "lo < 65536" using assms by simp_all
  then show ?thesis
    using assms by (simp add: scan_escape_def decode_uXXXX_hex4)
qed

lemma scanstring_short_escape:
  "unescape e = Some c \<Longrightarrow> e \<noteq> 117 \<Longrightarrow>
   scanstring (92 # e # rest) = cons_char c (scanstring rest)"
  by (simp add: scan_escape_def)

lemma scanstring_plain:
  "32 \<le> c \<Longrightarrow> c \<noteq> 34 \<Longrightarrow> c \<noteq> 92 \<Longrightarrow>
   scanstring (c # rest) = cons_char c (scanstring rest)"
  by simp

lemma scanstring_u:
  "n < 65536 \<Longrightarrow> n < 55296 \<or> 56319 < n \<Longrightarrow>
   scanstring (u_escape n @ rest) = cons_char n (scanstring rest)"
  by (simp add: u_escape_def scan_escape_u)

lemma scanstring_pair:
  assumes "55296 \<le> hi" "hi \<le> 56319" "56320 \<le> lo" "lo \<le> 57343"
  shows "scanstring (u_escape hi @ u_escape lo @ rest)
         = cons_char (65536 + ((hi - 55296) * 1024 + (lo - 56320))) (scanstring rest)"
  using scan_escape_pair [OF assms, of rest] by (simp add: u_escape_def)

lemma pair_arith:
  assumes "65536 \<le> (c::nat)" "c < 1114112"
  shows "65536 + ((55296 + (c - 65536) div 1024 mod 1024 - 55296) * 1024
                  + (56320 + (c - 65536) mod 1024 - 56320)) = c"
proof -
  define n where "n = c - 65536"
  have "n < 1048576" using assms by (simp add: n_def)
  then have "n div 1024 < 1024" by simp
  then have "n div 1024 mod 1024 = n div 1024" by simp
  moreover have "n div 1024 * 1024 + n mod 1024 = n" by simp
  ultimately have "65536 + (n div 1024 mod 1024 * 1024 + n mod 1024) = c"
    using assms by (simp add: n_def)
  then show ?thesis by (simp add: n_def)
qed

lemma scanstring_escape_char:
  assumes "json_safe c"
  shows "scanstring (escape_char c @ rest) = cons_char c (scanstring rest)"
proof -
  consider (short) "c \<in> {92, 34, 8, 12, 10, 13, 9}"
    | (plain) "c \<notin> {92, 34, 8, 12, 10, 13, 9}" "32 \<le> c" "c \<le> 126"
    | (u) "c \<notin> {92, 34, 8, 12, 10, 13, 9}" "\<not> (32 \<le> c \<and> c \<le> 126)" "c < 65536"
    | (pair) "65536 \<le> c"
    by fastforce
  then show ?thesis
  proof cases
    case short
    then show ?thesis
      by (auto simp: escape_char_def scan_escape_def unescape_def)
  next
    case plain
    then show ?thesis
      by (simp add: escape_char_def)
  next
    case u
    then have e: "escape_char c = u_escape c"
      by (auto simp: escape_char_def)
    from u assms show ?thesis
      by (simp only: e) (rule scanstring_u, auto simp: json_safe_def)
  next
    case pair
    define n where "n = c - 65536"
    have n: "n < 1048576" using pair assms by (simp add: n_def json_safe_def)
    then have d: "n div 1024 < 1024" by simp
    have e: "escape_char c = u_escape (55296 + n div 1024 mod 1024) @ u_escape (56320 + n mod 1024)"
      using pair by (simp add: escape_char_def Let_def n_def)
    have "scanstring (escape_char c @ rest)
          = cons_char (65536 + ((55296 + n div 1024 mod 1024 - 55296) * 1024
                                + (56320 + n mod 1024 - 56320))) (scanstring rest)"
      unfolding e append_assoc
      by (rule scanstring_pair) (use d in simp_all)
    also have "65536 + ((55296 + n div 1024 mod 1024 - 55296) * 1024
                                + (56320 + n mod 1024 - 56320)) = c"
      unfolding n_def using pair assms by (intro pair_arith) (simp_all add: json_safe_def)
    finally show ?thesis .
  qed
qed

lemma cons_char_Some_eq [simp]: "cons_char c (Some (s, r)) = Some (c # s, r)"
  by (simp add: cons_char_def)

lemma scanstring_encode:
  "list_all json_safe s \<Longrightarrow> scanstring (concat (map escape_char s) @ 34 # rest) = Some (s, rest)"
  by (induction s) (simp_all add: scanstring_escape_char)

lemma join_Cons: "xs \<noteq> [] \<Longrightarrow> join sep (x # xs) = x @ sep @ join sep xs"
  by (cases xs) simp_all

lemma join_encode_str_head:
  assumes "xs \<noteq> []"
  shows "\<exists>t. join sep (map encode_str xs) = 34 # t"
proof (cases xs)
  case Nil
  with assms show ?thesis by simp
next
  case (Cons x ys)
  then show ?thesis by (cases ys) (simp_all add: encode_str_def)
qed

lemma not_ws [simp]: "\<not> is_ws 34" "\<not> is_ws 44" "\<not> is_ws 91" "\<not> is_ws 93" "is_ws 32"
  by (simp_all add: is_ws_def)

lemma parse_items_single:
  assumes "list_all json_safe x"
  shows "parse_items (encode_str x @ 93 # rest) = Some ([x], rest)"
proof -
  have e: "encode_str x @ 93 # rest = 34 # (concat (map escape_char x) @ 34 # 93 # rest)"
    by (simp add: encode_str_def)
  show ?thesis
    unfolding e
    by (subst parse_items.simps) (simp add: scanstring_encode [OF assms])
qed

lemma parse_items_more:
  assumes "list_all json_safe x"
    and "parse_items (34 # t) = Some (xs, rest)"
  shows "parse_items (encode_str x @ py '', '' @ 34 # t) = Some (x # xs, rest)"
proof -
  have e: "encode_str x @ py '', '' @ 34 # t
        = 34 # (concat (map escape_char x) @ 34 # 44 # 32 # 34 # t)"
    by (simp add: encode_str_def py_def)
  show ?thesis
    unfolding e
    by (subst parse_items.simps) (simp add: scanstring_encode [OF assms(1)] assms(2))
qed

lemma parse_items_join:
  "xs \<noteq> [] \<Longrightarrow> \<forall>s\<in>set xs. list_all json_safe s \<Longrightarrow>
   parse_items (join (py '', '') (map encode_str xs) @ 93 # rest) = Some (xs, rest)"
proof (induction xs rule: list_nonempty_induct)
  case (single x)
  then show ?case by (simp add: parse_items_single)
next
  case (cons x xs)
  from join_encode_str_head [OF cons.hyps, of "py '', ''"]
  obtain t where t: "join (py '', '') (map encode_str xs) = 34 # t" by blast
  from cons have "parse_items (34 # (t @ 93 # rest)) = Some (xs, rest)"
    by (simp add: t)
  from parse_items_more [OF _ this, of x] cons.prems cons.hyps show ?case
    by (simp add: join_Cons t)
qed

lemma json_roundtrip:
  assumes "\<forall>s\<in>set xs. list_all json_safe s"
  shows "json_loads (json_dumps xs) = Some xs"
proof (cases "xs = []")
  case True
  then show ?thesis
    by (simp add: json_loads_def json_dumps_def)
next
  case False
  from join_encode_str_head [OF False, of "py '', ''"]
  obtain t where t: "join (py '', '') (map encode_str xs) = 34 # t" by blast
  from parse_items_join [OF False assms, of "[]"]
  have "parse_items (34 # t @ [93]) = Some (xs, [])"
    by (simp add: t)
  then show ?thesis
    by (simp add: json_loads_def json_dumps_def t)
qed

lemma json_dumps_nonempty [simp]: "json_dumps xs \<noteq> []"
  by (simp add: json_dumps_def)

lemma fs_encodable_safe: "fs_encodable p \<Longrightarrow> list_all json_safe p"
  by (auto simp: fs_encodable_def json_safe_def list_all_iff)

text \<open>
  A high surrogate directly followed by a low one does not come back: the decoder
  joins the two escapes into one code point. No stored path holds such a pair, since
  \<open>open\<close> cannot encode a high surrogate for the file system.
\<close>

lemma surrogate_pair_joined:
  "json_loads (json_dumps [[55357, 56832]]) = Some [[128512]]
   \<and> \<not> fs_encodable [55357, 56832]"
proof -
  have d: "json_dumps [[55357, 56832]]
           = [91, 34, 92, 117, 100, 56, 51, 100, 92, 117, 100, 101, 48, 48, 34, 93]"
    by (simp add: json_dumps_def encode_str_def escape_char_def u_escape_def hex4_def
        hex_digit_def)
  have s: "scan_escape [117, 100, 56, 51, 100, 92, 117, 100, 101, 48, 48, 34, 93]
           = Some (128512, [34, 93])"
    by (simp add: scan_escape_def decode_uXXXX_def hexval_def)
  have "parse_items [34, 92, 117, 100, 56, 51, 100, 92, 117, 100, 101, 48, 48, 34, 93]
        = Some ([[128512]], [])"
    using s by (subst parse_items.simps) simp
  then show ?thesis
    by (simp add: d json_loads_def fs_encodable_def)
qed

section \<open>The loop over the parts\<close>

lemma handle_part_container:
  "is_container part \<Longrightarrow> handle_part ev part body atts fs = (Inr (body, atts), fs)"
  by (simp add: handle_part_def is_container_def)

lemma handle_part_ignored:
  "\<not> is_container part \<Longrightarrow> attachment_disposition part \<Longrightarrow> \<not> named part \<Longrightarrow>
   handle_part ev part body atts fs = (Inr (body, atts), fs)"
  by (simp add: handle_part_def is_container_def attachment_disposition_def named_def
      split: option.splits)

lemma handle_part_attachment:
  "is_attachment part \<Longrightarrow> writable ev part \<Longrightarrow>
   handle_part ev part body atts fs =
     (Inr (body, atts @ [attachment_path part]),
      fs(attachment_path part := get_payload_decode part))"
  by (auto simp: handle_part_def is_attachment_def is_container_def attachment_disposition_def
      named_def writable_def attachment_path_def Let_def split: option.splits)

lemma handle_part_attachment_fail:
  "is_attachment part \<Longrightarrow> \<not> writable ev part \<Longrightarrow>
   \<exists>e fs'. handle_part ev part body atts fs = (Inl e, fs')"
  by (auto simp: handle_part_def is_attachment_def is_container_def attachment_disposition_def
      named_def writable_def attachment_path_def Let_def split: option.splits)

lemma handle_part_body:
  "is_body_part part \<Longrightarrow>
   handle_part ev part body atts fs = (Inr (body @ part_text ev part, atts), fs)"
  by (simp add: handle_part_def is_body_part_def is_container_def attachment_disposition_def
      part_text_def split: option.splits)

lemma part_cases:
  "is_container part \<or> is_attachment part \<or> is_body_part part
   \<or> (\<not> is_container part \<and> attachment_disposition part \<and> \<not> named part)"
  by (auto simp: is_attachment_def is_body_part_def)

lemma part_classes_disjoint:
  "\<not> (is_attachment part \<and> is_body_part part)"
  "\<not> (is_container part \<and> is_body_part part)"
  "\<not> (is_container part \<and> is_attachment part)"
  by (auto simp: is_attachment_def is_body_part_def)

lemma handle_parts_ok:
  "\<forall>p\<in>set parts. is_attachment p \<longrightarrow> writable ev p \<Longrightarrow>
   handle_parts ev parts body atts fs =
     (Inr (body @ concat (map (part_text ev) (filter is_body_part parts)),
           atts @ map attachment_path (filter is_attachment parts)),
      write_all (filter is_attachment parts) fs)"
proof (induction parts arbitrary: body atts fs)
  case Nil
  then show ?case by simp
next
  case (Cons p parts)
  consider (c) "is_container p" | (a) "is_attachment p" | (b) "is_body_part p"
    | (i) "\<not> is_container p" "attachment_disposition p" "\<not> named p"
    using part_cases by blast
  then show ?case
  proof cases
    case c
    then have "\<not> is_attachment p" "\<not> is_body_part p"
      using part_classes_disjoint by blast+
    with c Cons show ?thesis by (simp add: handle_part_container)
  next
    case a
    then have "\<not> is_body_part p" using part_classes_disjoint by blast
    moreover from a Cons.prems have "writable ev p" by simp
    ultimately show ?thesis
      using a Cons by (simp add: handle_part_attachment)
  next
    case b
    then have "\<not> is_attachment p" using part_classes_disjoint by blast
    with b Cons show ?thesis by (simp add: handle_part_body)
  next
    case i
    then have "\<not> is_attachment p" "\<not> is_body_part p"
      by (auto simp: is_attachment_def is_body_part_def)
    with i Cons show ?thesis by (simp add: handle_part_ignored)
  qed
qed

lemma handle_part_total:
  "(\<exists>e fs'. handle_part ev part body atts fs = (Inl e, fs'))
   \<or> (\<exists>body' atts' fs'. handle_part ev part body atts fs = (Inr (body', atts'), fs'))"
  by (cases "handle_part ev part body atts fs") (metis old.prod.exhaust sum.exhaust_sel)

lemma handle_parts_fail:
  "\<exists>p\<in>set parts. is_attachment p \<and> \<not> writable ev p \<Longrightarrow>
   \<exists>e fs'. handle_parts ev parts body atts fs = (Inl e, fs')"
proof (induction parts arbitrary: body atts fs)
  case Nil
  then show ?case by simp
next
  case (Cons p parts)
  show ?case
  proof (cases "is_attachment p \<and> \<not> writable ev p")
    case True
    then obtain e fs' where "handle_part ev p body atts fs = (Inl e, fs')"
      using handle_part_attachment_fail by blast
    then show ?thesis by simp
  next
    case False
    with Cons.prems have rest: "\<exists>q\<in>set parts. is_attachment q \<and> \<not> writable ev q" by auto
    from handle_part_total [of ev p body atts fs] show ?thesis
    proof (elim disjE exE)
      fix e fs' assume "handle_part ev p body atts fs = (Inl e, fs')"
      then show ?thesis by simp
    next
      fix body' atts' fs' assume "handle_part ev p body atts fs = (Inr (body', atts'), fs')"
      then show ?thesis using Cons.IH [OF rest, of body' atts' fs'] by simp
    qed
  qed
qed

lemma handle_parts_Inr:
  assumes "handle_parts ev parts body atts fs = (Inr (body', atts'), fs')"
  shows "(\<forall>p\<in>set parts. is_attachment p \<longrightarrow> writable ev p)
         \<and> body' = body @ concat (map (part_text ev) (filter is_body_part parts))
         \<and> atts' = atts @ map attachment_path (filter is_attachment parts)
         \<and> fs' = write_all (filter is_attachment parts) fs"
proof -
  have ok: "\<forall>p\<in>set parts. is_attachment p \<longrightarrow> writable ev p"
  proof (rule ccontr)
    assume "\<not> ?thesis"
    then have "\<exists>p\<in>set parts. is_attachment p \<and> \<not> writable ev p" by blast
    from handle_parts_fail [OF this, of body atts fs] assms show False by auto
  qed
  with handle_parts_ok [OF ok, of body atts fs] assms show ?thesis by simp
qed

lemma body_and_attachments_multipart:
  assumes "is_multipart msg"
    and "\<forall>p\<in>set (walk msg). is_attachment p \<longrightarrow> writable ev p"
  shows "body_and_attachments ev msg fs =
           (Inr (concat (map (part_text ev) (filter is_body_part (walk msg))),
                 map attachment_path (filter is_attachment (walk msg))),
            write_all (filter is_attachment (walk msg)) fs)"
  using assms handle_parts_ok [of "walk msg" ev "[]" "[]" fs]
  by (simp add: body_and_attachments_def)

lemma handle_part_open_fail:
  "is_attachment part \<Longrightarrow> fs_encodable (attachment_path part) \<Longrightarrow>
   0 \<notin> set (attachment_path part) \<Longrightarrow> \<not> open_ok ev (attachment_path part) \<Longrightarrow>
   handle_part ev part body atts fs = (Inl OSError, fs)"
  by (auto simp: handle_part_def is_attachment_def is_container_def attachment_disposition_def
      named_def attachment_path_def Let_def split: option.splits)

lemma write_all_append: "write_all (ps @ qs) fs = write_all qs (write_all ps fs)"
  by (induction ps arbitrary: fs) simp_all

lemma write_all_lookup:
  "write_all ps fs x =
     (if filter (\<lambda>p. attachment_path p = x) ps = [] then fs x
      else get_payload_decode (last (filter (\<lambda>p. attachment_path p = x) ps)))"
proof (induction ps rule: rev_induct)
  case Nil
  then show ?case by simp
next
  case (snoc p ps)
  show ?case
  proof (cases "attachment_path p = x")
    case True
    then show ?thesis
      by (simp add: write_all_append)
  next
    case False
    with snoc show ?thesis
      by (simp add: write_all_append)
  qed
qed

section \<open>Facts about the sample data\<close>


lemma is_container_container [simp]: "is_container (container hs ps)"
  by (simp add: is_container_def container_def)

lemma attachment_part_class [simp]:
  "\<not> is_container (attachment_part n b)"
  "attachment_disposition (attachment_part n b)"
  "named (attachment_part n b) = (n \<noteq> None \<and> n \<noteq> Some [])"
  "get_payload_decode (attachment_part n b) = Some b"
  "get_filename (info (attachment_part n b)) = n"
  by (auto simp: is_container_def attachment_part_def attachment_disposition_def msg_get_def
      named_def py_def lower_def sublist_code split: option.splits)

lemma text_part_class [simp]:
  "\<not> is_container (text_part c b)"
  "\<not> attachment_disposition (text_part c b)"
  "get_payload_decode (text_part c b) = b"
  "get_content_charset (info (text_part c b)) = c"
  by (simp_all add: is_container_def text_part_def attachment_disposition_def msg_get_def
      py_def lower_def sublist_code)

lemma walk_samples [simp]:
  "walk (container hs ps) = container hs ps # concat (map walk ps)"
  "walk (attachment_part n b) = [attachment_part n b]"
  "walk (text_part c p) = [text_part c p]"
  "is_multipart (container hs ps)"
  "\<not> is_multipart (attachment_part n b)"
  "\<not> is_multipart (text_part c p)"
  by (simp_all add: container_def attachment_part_def text_part_def)

lemma sample_classes [simp]:
  "\<not> is_attachment (container hs ps)"
  "\<not> is_body_part (container hs ps)"
  "is_attachment (attachment_part n b) = (n \<noteq> None \<and> n \<noteq> Some [])"
  "\<not> is_body_part (attachment_part n b)"
  "\<not> is_attachment (text_part c p)"
  "is_body_part (text_part c p)"
  by (simp_all add: is_attachment_def is_body_part_def)

lemma sample_env_simps [simp]:
  "message_from_bytes (sample_env m) c = Inr m"
  "decode (sample_env m) = sample_decode"
  "localtime (sample_env m) = sample_time"
  "open_ok (sample_env m) p"
  "insert_ok (sample_env m)"
  by (simp_all add: sample_env_def)

lemma sample_paths [simp]:
  "attachment_path (attachment_part (Some (py ''a.bin'')) b) = py ''attachments/a.bin''"
  "attachment_path (attachment_part (Some (py ''b.bin'')) b) = py ''attachments/b.bin''"
  by (simp_all add: attachment_path_def os_path_join_def ATTACHMENTS_DIR_def py_def)

lemma sample_writable [simp]:
  "writable (sample_env m) (attachment_part (Some (py ''a.bin'')) b)"
  "writable (sample_env m) (attachment_part (Some (py ''b.bin'')) b)"
  by (simp_all add: writable_def, simp_all add: fs_encodable_def py_def)

lemma sample_text [simp]:
  "part_text (sample_env m) (text_part (Some (py ''us-ascii'')) (Some ''hello'')) = py ''hello''"
  by (simp add: part_text_def decode_text_def charset_or_utf8_def sample_decode_def
      ascii_replace_def py_def)

lemma py_nonempty [simp]: "(py s = []) = (s = [])"
  by (simp add: py_def)

lemma mixed_message_parts:
  "filter is_attachment (walk mixed_message) =
     [attachment_part (Some (py ''a.bin'')) ''AAA'', attachment_part (Some (py ''b.bin'')) ''BBB'']"
  "filter is_body_part (walk mixed_message) = [text_part (Some (py ''us-ascii'')) (Some ''hello'')]"
  by (simp_all add: mixed_message_def)

lemma can_insert_empty [simp]: "can_insert (sample_env m) (db empty_store)"
  by (simp add: can_insert_def empty_store_def init_db_def next_id_def max_rowid_def)

lemma empty_store_simps [simp]:
  "emails (db empty_store) = []" "files empty_store = Map.empty" "stdout empty_store = []"
  "sqlite_sequence (db empty_store) = 0"
  by (simp_all add: empty_store_def init_db_def)

lemma json_dumps_Nil [simp]: "json_dumps [] = py ''[]''"
  by (simp add: json_dumps_def py_def)

lemma json_loads_empty_array [simp]: "json_loads (py ''[]'') = Some []"
  by (simp add: json_loads_def py_def is_ws_def)

lemma readonly_env_simps [simp]:
  "message_from_bytes (readonly_env m) c = Inr m"
  "\<not> open_ok (readonly_env m) p"
  "insert_ok (readonly_env m)"
  "decode (readonly_env m) = sample_decode"
  by (simp_all add: readonly_env_def sample_env_def)

lemma dbfail_env_simps [simp]:
  "message_from_bytes (dbfail_env m) c = Inr m"
  "open_ok (dbfail_env m) p"
  "\<not> insert_ok (dbfail_env m)"
  "decode (dbfail_env m) = sample_decode"
  by (simp_all add: dbfail_env_def sample_env_def)

lemma sample_paths_encodable [simp]:
  "fs_encodable (py ''attachments/a.bin'')" "0 \<notin> set (py ''attachments/a.bin'')"
  "fs_encodable (py ''attachments/b.bin'')" "0 \<notin> set (py ''attachments/b.bin'')"
  by (simp_all add: fs_encodable_def py_def)

lemma next_id_empty [simp]: "next_id (db empty_store) = 1"
  by (simp add: next_id_def max_rowid_def)

section \<open>The handler, case by case\<close>

lemma handle_DATA_accept:
  assumes "message_from_bytes ev (content envelope) = Inr msg"
    and "body_and_attachments ev msg (files st) = (Inr (body, atts), fs)"
    and "can_insert ev (db st)"
  shows "handle_DATA ev envelope st =
    (Inr accepted,
     st\<lparr>db := \<lparr>emails = emails (db st) @
                   [\<lparr>row_id = next_id (db st),
                     row_sender = msg_get msg (py ''From'') (mail_from envelope),
                     row_recipients = msg_get msg (py ''To'') (join (py '', '') (rcpt_tos envelope)),
                     row_subject = msg_get msg (py ''Subject'') (py ''(No Subject)''),
                     row_body = body,
                     row_date = msg_get msg (py ''Date'') (strftime (localtime ev)),
                     row_attachments = json_dumps atts\<rparr>],
                sqlite_sequence = next_id (db st)\<rparr>,
        files := fs,
        stdout := stdout st @
          [py ''Saved email from '' @ msg_get msg (py ''From'') (mail_from envelope)
           @ py '' with subject '' @ [39]
           @ msg_get msg (py ''Subject'') (py ''(No Subject)'') @ [39]]\<rparr>)"
  using assms by (simp add: handle_DATA_def save_email_to_db_def Let_def accepted_def)

lemma handle_DATA_extract_error:
  assumes "message_from_bytes ev (content envelope) = Inr msg"
    and "body_and_attachments ev msg (files st) = (Inl e, fs)"
  shows "handle_DATA ev envelope st = (Inl e, st\<lparr>files := fs\<rparr>)"
  using assms by (simp add: handle_DATA_def Let_def)

lemma handle_DATA_insert_error:
  assumes "message_from_bytes ev (content envelope) = Inr msg"
    and "body_and_attachments ev msg (files st) = (Inr (body, atts), fs)"
    and "\<not> can_insert ev (db st)"
  shows "handle_DATA ev envelope st = (Inl DatabaseError, st\<lparr>files := fs\<rparr>)"
  using assms by (simp add: handle_DATA_def save_email_to_db_def Let_def)

lemma body_and_attachments_total:
  "(\<exists>e fs'. body_and_attachments ev msg fs = (Inl e, fs'))
   \<or> (\<exists>body atts fs'. body_and_attachments ev msg fs = (Inr (body, atts), fs'))"
  by (cases "body_and_attachments ev msg fs") (metis old.prod.exhaust sum.exhaust_sel)

lemma accepted_not_error [simp]: "accepted \<noteq> py ''550 Error''"
  by (simp add: accepted_def py_def)

text \<open>If the reply is the acceptance, everything succeeded.\<close>

lemma handle_DATA_accepted_iff:
  assumes "message_from_bytes ev (content envelope) = Inr msg"
  shows "fst (handle_DATA ev envelope st) = Inr accepted \<longleftrightarrow>
         (\<exists>body atts fs. body_and_attachments ev msg (files st) = (Inr (body, atts), fs))
         \<and> can_insert ev (db st)"
proof (cases "can_insert ev (db st)")
  case True
  from body_and_attachments_total [of ev msg "files st"] show ?thesis
  proof (elim disjE exE)
    fix e fs' assume "body_and_attachments ev msg (files st) = (Inl e, fs')"
    then show ?thesis using handle_DATA_extract_error [OF assms] by simp
  next
    fix body atts fs' assume "body_and_attachments ev msg (files st) = (Inr (body, atts), fs')"
    then show ?thesis using handle_DATA_accept [OF assms _ True] True by simp
  qed
next
  case False
  from body_and_attachments_total [of ev msg "files st"] show ?thesis
  proof (elim disjE exE)
    fix e fs' assume "body_and_attachments ev msg (files st) = (Inl e, fs')"
    then show ?thesis using handle_DATA_extract_error [OF assms] by simp
  next
    fix body atts fs' assume "body_and_attachments ev msg (files st) = (Inr (body, atts), fs')"
    then show ?thesis using handle_DATA_insert_error [OF assms _ False] False by simp
  qed
qed

lemma body_and_attachments_single:
  "\<not> is_multipart msg \<Longrightarrow> body_and_attachments ev msg fs = (Inr (part_text ev msg, []), fs)"
  by (simp add: body_and_attachments_def part_text_def split: option.splits)

lemma handle_DATA_single:
  assumes "message_from_bytes ev (content envelope) = Inr msg"
    and "\<not> is_multipart msg"
    and "can_insert ev (db st)"
  shows "fst (handle_DATA ev envelope st) = Inr accepted"
    and "emails (db (snd (handle_DATA ev envelope st))) =
           emails (db st) @
           [\<lparr>row_id = next_id (db st),
             row_sender = msg_get msg (py ''From'') (mail_from envelope),
             row_recipients = msg_get msg (py ''To'') (join (py '', '') (rcpt_tos envelope)),
             row_subject = msg_get msg (py ''Subject'') (py ''(No Subject)''),
             row_body = part_text ev msg,
             row_date = msg_get msg (py ''Date'') (strftime (localtime ev)),
             row_attachments = json_dumps []\<rparr>]"
    and "files (snd (handle_DATA ev envelope st)) = files st"
  using handle_DATA_accept [OF assms(1) body_and_attachments_single [OF assms(2)] assms(3)]
  by simp_all

lemma get_header_None_iff:
  "get_header hs name = None \<longleftrightarrow> (\<forall>(k, v)\<in>set hs. lower k \<noteq> lower name)"
  by (induction hs) (auto split: if_splits)

lemma handle_DATA_accepted_row:
  assumes "message_from_bytes ev (content envelope) = Inr msg"
    and "fst (handle_DATA ev envelope st) = Inr accepted"
  shows "\<exists>body atts fs.
           body_and_attachments ev msg (files st) = (Inr (body, atts), fs)
           \<and> can_insert ev (db st)
           \<and> files (snd (handle_DATA ev envelope st)) = fs
           \<and> sqlite_sequence (db (snd (handle_DATA ev envelope st))) = next_id (db st)
           \<and> emails (db (snd (handle_DATA ev envelope st))) =
               emails (db st) @
               [\<lparr>row_id = next_id (db st),
                 row_sender = msg_get msg (py ''From'') (mail_from envelope),
                 row_recipients = msg_get msg (py ''To'') (join (py '', '') (rcpt_tos envelope)),
                 row_subject = msg_get msg (py ''Subject'') (py ''(No Subject)''),
                 row_body = body,
                 row_date = msg_get msg (py ''Date'') (strftime (localtime ev)),
                 row_attachments = json_dumps atts\<rparr>]"
proof -
  from assms handle_DATA_accepted_iff [OF assms(1), of st]
  obtain body atts fs where b: "body_and_attachments ev msg (files st) = (Inr (body, atts), fs)"
    and c: "can_insert ev (db st)"
    by auto
  from handle_DATA_accept [OF assms(1) b c] b c show ?thesis by simp
qed

lemma handle_DATA_accepted_multipart:
  assumes "message_from_bytes ev (content envelope) = Inr msg"
    and "is_multipart msg"
    and "fst (handle_DATA ev envelope st) = Inr accepted"
  shows "files (snd (handle_DATA ev envelope st)) = write_all (filter is_attachment (walk msg)) (files st)"
    and "\<exists>r. emails (db (snd (handle_DATA ev envelope st))) = emails (db st) @ [r]
           \<and> row_attachments r = json_dumps (map attachment_path (filter is_attachment (walk msg)))"
    and "\<forall>p\<in>set (walk msg). is_attachment p \<longrightarrow> writable ev p"
proof -
  from handle_DATA_accepted_row [OF assms(1,3)]
  obtain body atts fs where b: "body_and_attachments ev msg (files st) = (Inr (body, atts), fs)"
    and f: "files (snd (handle_DATA ev envelope st)) = fs"
    and e: "emails (db (snd (handle_DATA ev envelope st))) =
               emails (db st) @
               [\<lparr>row_id = next_id (db st),
                 row_sender = msg_get msg (py ''From'') (mail_from envelope),
                 row_recipients = msg_get msg (py ''To'') (join (py '', '') (rcpt_tos envelope)),
                 row_subject = msg_get msg (py ''Subject'') (py ''(No Subject)''),
                 row_body = body,
                 row_date = msg_get msg (py ''Date'') (strftime (localtime ev)),
                 row_attachments = json_dumps atts\<rparr>]"
    by blast
  from b assms(2) have "handle_parts ev (walk msg) [] [] (files st) = (Inr (body, atts), fs)"
    by (simp add: body_and_attachments_def)
  from handle_parts_Inr [OF this]
  have w: "\<forall>p\<in>set (walk msg). is_attachment p \<longrightarrow> writable ev p"
    and a: "atts = map attachment_path (filter is_attachment (walk msg))"
    and fs: "fs = write_all (filter is_attachment (walk msg)) (files st)"
    by simp_all
  show "files (snd (handle_DATA ev envelope st)) = write_all (filter is_attachment (walk msg)) (files st)"
    using f fs by simp
  show "\<exists>r. emails (db (snd (handle_DATA ev envelope st))) = emails (db st) @ [r]
           \<and> row_attachments r = json_dumps (map attachment_path (filter is_attachment (walk msg)))"
    using e a by simp
  show "\<forall>p\<in>set (walk msg). is_attachment p \<longrightarrow> writable ev p" by (rule w)
qed

section \<open>Row ids\<close>

lemma fold_max_ge: "a \<le> fold max xs (a :: nat)"
  by (induction xs arbitrary: a) (auto intro: order_trans [OF max.cobounded2])

lemma fold_max_mem: "x \<in> set xs \<Longrightarrow> x \<le> fold max xs (a :: nat)"
proof (induction xs arbitrary: a)
  case Nil
  then show ?case by simp
next
  case (Cons y ys)
  then show ?case
    using fold_max_ge [of "max y a" ys] by auto
qed

lemma max_rowid_ge: "r \<in> set rs \<Longrightarrow> row_id r \<le> max_rowid rs"
  by (simp add: max_rowid_def fold_max_mem)

lemma save_email_to_db_Inr:
  assumes "save_email_to_db ev sender recipients subject body date_str attachments d = Inr d'"
  shows "can_insert ev d"
    and "d' = \<lparr>emails = emails d @
                  [\<lparr>row_id = next_id d, row_sender = sender, row_recipients = recipients,
                    row_subject = subject, row_body = body, row_date = date_str,
                    row_attachments = json_dumps attachments\<rparr>],
               sqlite_sequence = next_id d\<rparr>"
  using assms by (auto simp: save_email_to_db_def Let_def split: if_splits)

lemma next_id_greater_sequence: "sqlite_sequence d < next_id d"
  by (simp add: next_id_def)

lemma next_id_greater_rows: "r \<in> set (emails d) \<Longrightarrow> row_id r < next_id d"
  using max_rowid_ge [of r "emails d"] by (simp add: next_id_def)

lemma reachable_invariant:
  "reachable d \<Longrightarrow>
   sorted_wrt (<) (map row_id (emails d)) \<and> (\<forall>r\<in>set (emails d). row_id r \<le> sqlite_sequence d)"
proof (induction rule: reachable.induct)
  case init
  then show ?case by (simp add: init_db_def)
next
  case (append d ev sender recipients subject body date_str attachments d')
  from save_email_to_db_Inr(2) [OF append.hyps(2)] append.IH
    next_id_greater_sequence [of d] next_id_greater_rows [of _ d]
  show ?case
    by (auto simp: sorted_wrt_append intro: order_trans)
qed

lemma select_emails_sorted:
  "sorted_wrt (<) (map row_id (emails d)) \<Longrightarrow> select_emails d = rev (emails d)"
  by (simp add: select_emails_def sort_key_id_if_sorted strict_sorted_imp_sorted)

lemma select_emails_append:
  assumes "reachable d" and "emails d' = emails d @ [r]" and "row_id r = next_id d"
  shows "select_emails d' = r # select_emails d"
proof -
  have s: "sorted_wrt (<) (map row_id (emails d))"
    using reachable_invariant [OF assms(1)] by simp
  then have "sorted_wrt (<) (map row_id (emails d'))"
    using assms(2,3) next_id_greater_rows [of _ d] by (auto simp: sorted_wrt_append)
  then have "select_emails d' = rev (emails d')"
    by (rule select_emails_sorted)
  with select_emails_sorted [OF s] assms(2) show ?thesis by simp
qed

lemma accepted_attachments:
  assumes "message_from_bytes ev (content envelope) = Inr msg"
    and "fst (handle_DATA ev envelope st) = Inr accepted"
  shows "\<exists>r. emails (db (snd (handle_DATA ev envelope st))) = emails (db st) @ [r]
           \<and> row_id r = next_id (db st)
           \<and> row_attachments r =
               json_dumps (if is_multipart msg
                           then map attachment_path (filter is_attachment (walk msg)) else [])
           \<and> (is_multipart msg \<longrightarrow> (\<forall>p\<in>set (walk msg). is_attachment p \<longrightarrow> writable ev p))"
proof -
  from handle_DATA_accepted_row [OF assms]
  obtain body atts fs where b: "body_and_attachments ev msg (files st) = (Inr (body, atts), fs)"
    and e: "emails (db (snd (handle_DATA ev envelope st))) =
               emails (db st) @
               [\<lparr>row_id = next_id (db st),
                 row_sender = msg_get msg (py ''From'') (mail_from envelope),
                 row_recipients = msg_get msg (py ''To'') (join (py '', '') (rcpt_tos envelope)),
                 row_subject = msg_get msg (py ''Subject'') (py ''(No Subject)''),
                 row_body = body,
                 row_date = msg_get msg (py ''Date'') (strftime (localtime ev)),
                 row_attachments = json_dumps atts\<rparr>]"
    by blast
  show ?thesis
  proof (cases "is_multipart msg")
    case True
    with b have "handle_parts ev (walk msg) [] [] (files st) = (Inr (body, atts), fs)"
      by (simp add: body_and_attachments_def)
    from handle_parts_Inr [OF this] True e show ?thesis by simp
  next
    case False
    with b e show ?thesis by (simp add: body_and_attachments_single)
  qed
qed

lemma inbox_empty [simp]: "inbox empty_store = Inr []"
  by (simp add: inbox_def select_emails_def)

section \<open>A payload the parser refuses\<close>



section \<open>Attachments and body text\<close>






section \<open>Decoding the body\<close>




section \<open>Defaults of the headers\<close>



section \<open>Empty payloads\<close>

text \<open>
  C9. A body part whose decoded payload is \<open>None\<close> or empty leaves the body, the
  attachments and the files as they are, and raises nothing. A message that is not
  multipart and has such a payload yields the empty body and no attachments; when the
  row can be inserted it is accepted, with the empty string as stored body and the
  JSON text of the empty list as stored attachments.
\<close>

theorem empty_payload:
  assumes "get_payload_decode part = None \<or> get_payload_decode part = Some []"
  shows "(is_body_part part \<longrightarrow> handle_part ev part body atts fs = (Inr (body, atts), fs))
         \<and> (\<not> is_multipart part \<longrightarrow> body_and_attachments ev part fs = (Inr ([], []), fs))
         \<and> (\<not> is_multipart part \<longrightarrow> message_from_bytes ev (content envelope) = Inr part
              \<longrightarrow> can_insert ev (db st)
              \<longrightarrow> fst (handle_DATA ev envelope st) = Inr accepted
                  \<and> map row_body (emails (db (snd (handle_DATA ev envelope st))))
                      = map row_body (emails (db st)) @ [[]]
                  \<and> map (json_loads \<circ> row_attachments)
                        (emails (db (snd (handle_DATA ev envelope st))))
                      = map (json_loads \<circ> row_attachments) (emails (db st)) @ [Some []])"
proof -
  have t: "part_text ev part = []"
    using assms by (auto simp: part_text_def)
  have "is_body_part part \<longrightarrow> handle_part ev part body atts fs = (Inr (body, atts), fs)"
    using t by (simp add: handle_part_body)
  moreover have "\<not> is_multipart part \<longrightarrow> body_and_attachments ev part fs = (Inr ([], []), fs)"
    using t by (simp add: body_and_attachments_single)
  moreover have "\<not> is_multipart part \<longrightarrow> message_from_bytes ev (content envelope) = Inr part
      \<longrightarrow> can_insert ev (db st)
      \<longrightarrow> fst (handle_DATA ev envelope st) = Inr accepted
          \<and> map row_body (emails (db (snd (handle_DATA ev envelope st))))
              = map row_body (emails (db st)) @ [[]]
          \<and> map (json_loads \<circ> row_attachments) (emails (db (snd (handle_DATA ev envelope st))))
              = map (json_loads \<circ> row_attachments) (emails (db st)) @ [Some []]"
    using t handle_DATA_single [of ev envelope part st] by simp
  ultimately show ?thesis by blast
qed

theorem empty_payload_witness:
  "get_payload_decode empty_message = Some []
   \<and> \<not> is_multipart empty_message
   \<and> is_body_part empty_message
   \<and> handle_part (sample_env empty_message) empty_message (py ''abc'') [] Map.empty
       = (Inr (py ''abc'', []), Map.empty)
   \<and> fst (handle_DATA (sample_env empty_message) sample_envelope empty_store) = Inr accepted
   \<and> map row_body
        (emails (db (snd (handle_DATA (sample_env empty_message) sample_envelope empty_store))))
      = [[]]
   \<and> map (json_loads \<circ> row_attachments)
        (emails (db (snd (handle_DATA (sample_env empty_message) sample_envelope empty_store))))
      = [Some []]"
proof -
  have p: "get_payload_decode empty_message = None \<or> get_payload_decode empty_message = Some []"
    by (simp add: empty_message_def)
  have q: "get_payload_decode empty_message = Some []" "\<not> is_multipart empty_message"
    "is_body_part empty_message"
    by (simp_all add: empty_message_def)
  from empty_payload [OF p, where ev = "sample_env empty_message" and envelope = sample_envelope
      and st = empty_store and body = "py ''abc''" and atts = "[]" and fs = Map.empty] q
  show ?thesis by simp
qed

section \<open>Failing storage\<close>

text \<open>
  C6, as the code has it. When the file of an attachment cannot be written, or the row
  cannot be inserted, \<open>handle_DATA\<close> returns no reply at all: the exception leaves it
  (and whoever called it answers the client). The acceptance is returned only when
  the row is in the table, where the inbox query finds it.
\<close>

theorem storage_failure_raises:
  assumes "message_from_bytes ev (content envelope) = Inr msg"
  shows "((is_multipart msg \<and> (\<exists>p\<in>set (walk msg). is_attachment p \<and> \<not> writable ev p))
            \<or> \<not> can_insert ev (db st)
          \<longrightarrow> (\<exists>e. fst (handle_DATA ev envelope st) = Inl e))
         \<and> (fst (handle_DATA ev envelope st) = Inr accepted
              \<longrightarrow> (\<exists>r. emails (db (snd (handle_DATA ev envelope st))) = emails (db st) @ [r]
                       \<and> r \<in> set (select_emails (db (snd (handle_DATA ev envelope st))))))"
proof (intro conjI impI)
  assume f: "(is_multipart msg \<and> (\<exists>p\<in>set (walk msg). is_attachment p \<and> \<not> writable ev p))
            \<or> \<not> can_insert ev (db st)"
  show "\<exists>e. fst (handle_DATA ev envelope st) = Inl e"
  proof (cases "is_multipart msg \<and> (\<exists>p\<in>set (walk msg). is_attachment p \<and> \<not> writable ev p)")
    case True
    then obtain e fs' where "handle_parts ev (walk msg) [] [] (files st) = (Inl e, fs')"
      using handle_parts_fail [of "walk msg" ev "[]" "[]" "files st"] by blast
    with True have "body_and_attachments ev msg (files st) = (Inl e, fs')"
      by (simp add: body_and_attachments_def)
    from handle_DATA_extract_error [OF assms this] show ?thesis by simp
  next
    case False
    with f have c: "\<not> can_insert ev (db st)" by blast
    from body_and_attachments_total [of ev msg "files st"] show ?thesis
    proof (elim disjE exE)
      fix e fs' assume "body_and_attachments ev msg (files st) = (Inl e, fs')"
      from handle_DATA_extract_error [OF assms this] show ?thesis by simp
    next
      fix body atts fs' assume "body_and_attachments ev msg (files st) = (Inr (body, atts), fs')"
      from handle_DATA_insert_error [OF assms this c] show ?thesis by simp
    qed
  qed
next
  assume "fst (handle_DATA ev envelope st) = Inr accepted"
  from handle_DATA_accepted_row [OF assms this]
  show "\<exists>r. emails (db (snd (handle_DATA ev envelope st))) = emails (db st) @ [r]
          \<and> r \<in> set (select_emails (db (snd (handle_DATA ev envelope st))))"
    by (auto simp: select_emails_def)
qed

theorem storage_failure_raises_witness:
  "is_multipart mixed_message
   \<and> \<not> writable (readonly_env mixed_message) (attachment_part (Some (py ''a.bin'')) ''AAA'')
   \<and> (\<exists>e. fst (handle_DATA (readonly_env mixed_message) sample_envelope empty_store) = Inl e)
   \<and> fst (handle_DATA (sample_env mixed_message) sample_envelope empty_store) = Inr accepted
   \<and> (\<exists>r. emails (db (snd (handle_DATA (sample_env mixed_message) sample_envelope empty_store)))
             = [r]
          \<and> r \<in> set (select_emails
                        (db (snd (handle_DATA (sample_env mixed_message) sample_envelope
                                    empty_store)))))"
proof -
  have m: "is_multipart mixed_message"
    and a: "attachment_part (Some (py ''a.bin'')) ''AAA'' \<in> set (walk mixed_message)"
    and w: "\<not> writable (readonly_env mixed_message) (attachment_part (Some (py ''a.bin'')) ''AAA'')"
    by (simp_all add: mixed_message_def writable_def)
  have ok: "fst (handle_DATA (sample_env mixed_message) sample_envelope empty_store) = Inr accepted"
    using handle_DATA_accept [where ev = "sample_env mixed_message" and envelope = sample_envelope
        and st = empty_store and msg = mixed_message,
        OF _ body_and_attachments_multipart [OF m]]
    by (simp add: mixed_message_def)
  from storage_failure_raises [where ev = "readonly_env mixed_message" and envelope = sample_envelope
      and st = empty_store and msg = mixed_message] m a w
  have 1: "\<exists>e. fst (handle_DATA (readonly_env mixed_message) sample_envelope empty_store) = Inl e"
    by (auto simp: Bex_def)
  from storage_failure_raises [where ev = "sample_env mixed_message" and envelope = sample_envelope
      and st = empty_store and msg = mixed_message] ok
  have 2: "\<exists>r. emails (db (snd (handle_DATA (sample_env mixed_message) sample_envelope empty_store)))
             = [r]
          \<and> r \<in> set (select_emails
                        (db (snd (handle_DATA (sample_env mixed_message) sample_envelope
                                    empty_store))))"
    by simp
  from m w 1 ok 2 show ?thesis by blast
qed

text \<open>
  The claim as stated fails: a failing \<open>INSERT\<close> and a failing \<open>open\<close> are not turned
  into a rejection status by \<open>handle_DATA\<close>; they leave it as exceptions.
\<close>

theorem storage_failure_counterexample:
  "fst (handle_DATA (dbfail_env empty_message) sample_envelope empty_store) = Inl DatabaseError
   \<and> fst (handle_DATA (readonly_env mixed_message) sample_envelope empty_store) = Inl OSError"
proof -
  have "\<not> can_insert (dbfail_env empty_message) (db empty_store)"
    by (simp add: can_insert_def)
  from handle_DATA_insert_error [where ev = "dbfail_env empty_message" and envelope = sample_envelope
      and st = empty_store and msg = empty_message, OF _ body_and_attachments_single this]
  have 1: "fst (handle_DATA (dbfail_env empty_message) sample_envelope empty_store) = Inl DatabaseError"
    by (simp add: empty_message_def)
  have "body_and_attachments (readonly_env mixed_message) mixed_message (files empty_store)
          = (Inl OSError, Map.empty)"
    by (simp add: body_and_attachments_def mixed_message_def handle_part_container
        handle_part_open_fail)
  from handle_DATA_extract_error [where ev = "readonly_env mixed_message"
      and envelope = sample_envelope and st = empty_store and msg = mixed_message, OF _ this]
  have 2: "fst (handle_DATA (readonly_env mixed_message) sample_envelope empty_store) = Inl OSError"
    by simp
  from 1 2 show ?thesis by simp
qed

section \<open>Two attachments of one name\<close>

text \<open>
  C7. Two accepted multipart messages, handled one after the other, each with an
  attachment part of the same declared filename: both parts have the same storage
  path; after the second message the file at that path holds the payload of the last
  attachment of that path in the second message, whatever the first message wrote
  there; and the rows of both messages list that path among their attachments.
\<close>

theorem same_filename_overwrites:
  assumes "message_from_bytes ev1 (content envelope1) = Inr m1" and "is_multipart m1"
    and "fst (handle_DATA ev1 envelope1 st) = Inr accepted"
    and "message_from_bytes ev2 (content envelope2) = Inr m2" and "is_multipart m2"
    and "fst (handle_DATA ev2 envelope2 (snd (handle_DATA ev1 envelope1 st))) = Inr accepted"
    and "part1 \<in> set (walk m1)" and "is_attachment part1"
    and "part2 \<in> set (walk m2)" and "is_attachment part2"
    and "get_filename (info part1) = get_filename (info part2)"
  shows "attachment_path part1 = attachment_path part2
         \<and> files (snd (handle_DATA ev2 envelope2 (snd (handle_DATA ev1 envelope1 st))))
             (attachment_path part1)
           = get_payload_decode
               (last (filter (\<lambda>q. is_attachment q \<and> attachment_path q = attachment_path part2)
                        (walk m2)))
         \<and> (\<exists>r1 r2 atts1 atts2.
               emails (db (snd (handle_DATA ev2 envelope2 (snd (handle_DATA ev1 envelope1 st)))))
                 = emails (db st) @ [r1, r2]
               \<and> row_attachments r1 = json_dumps atts1 \<and> attachment_path part1 \<in> set atts1
               \<and> row_attachments r2 = json_dumps atts2 \<and> attachment_path part1 \<in> set atts2)"
proof -
  let ?st1 = "snd (handle_DATA ev1 envelope1 st)"
  let ?st2 = "snd (handle_DATA ev2 envelope2 ?st1)"
  let ?P = "attachment_path part2"
  have same: "attachment_path part1 = ?P"
    using assms(11) by (simp add: attachment_path_def)
  have f2: "files ?st2 = write_all (filter is_attachment (walk m2)) (files ?st1)"
    by (rule handle_DATA_accepted_multipart(1) [OF assms(4,5,6)])
  have flt: "filter (\<lambda>p. attachment_path p = ?P) (filter is_attachment (walk m2))
              = filter (\<lambda>q. is_attachment q \<and> attachment_path q = ?P) (walk m2)"
    by (simp add: conj_commute)
  have "part2 \<in> set (filter (\<lambda>q. is_attachment q \<and> attachment_path q = ?P) (walk m2))"
    using assms(9,10) by simp
  then have ne: "filter (\<lambda>q. is_attachment q \<and> attachment_path q = ?P) (walk m2) \<noteq> []"
    by (metis empty_iff list.set(1))
  have fl: "files ?st2 ?P
      = get_payload_decode (last (filter (\<lambda>q. is_attachment q \<and> attachment_path q = ?P) (walk m2)))"
    using ne by (simp add: f2 write_all_lookup flt)
  from handle_DATA_accepted_multipart(2) [OF assms(1,2,3)]
  obtain r1 where r1: "emails (db ?st1) = emails (db st) @ [r1]"
    "row_attachments r1 = json_dumps (map attachment_path (filter is_attachment (walk m1)))"
    by blast
  from handle_DATA_accepted_multipart(2) [OF assms(4,5,6)]
  obtain r2 where r2: "emails (db ?st2) = emails (db ?st1) @ [r2]"
    "row_attachments r2 = json_dumps (map attachment_path (filter is_attachment (walk m2)))"
    by blast
  have in1: "attachment_path part1 \<in> set (map attachment_path (filter is_attachment (walk m1)))"
    using assms(7,8) by simp
  have in2: "attachment_path part1 \<in> set (map attachment_path (filter is_attachment (walk m2)))"
    using assms(9,10) same by force
  from r1 r2 in1 in2
  have "\<exists>r1 r2 atts1 atts2.
          emails (db ?st2) = emails (db st) @ [r1, r2]
          \<and> row_attachments r1 = json_dumps atts1 \<and> attachment_path part1 \<in> set atts1
          \<and> row_attachments r2 = json_dumps atts2 \<and> attachment_path part1 \<in> set atts2"
    by (intro exI [of _ r1] exI [of _ r2]
        exI [of _ "map attachment_path (filter is_attachment (walk m1))"]
        exI [of _ "map attachment_path (filter is_attachment (walk m2))"]) simp
  with same fl show ?thesis by simp
qed

theorem same_filename_overwrites_witness:
  "fst (handle_DATA (sample_env first_message) sample_envelope empty_store) = Inr accepted
   \<and> fst (handle_DATA (sample_env second_message) sample_envelope
             (snd (handle_DATA (sample_env first_message) sample_envelope empty_store)))
       = Inr accepted
   \<and> files (snd (handle_DATA (sample_env first_message) sample_envelope empty_store))
        (py ''attachments/a.bin'') = Some ''AAA''
   \<and> files (snd (handle_DATA (sample_env second_message) sample_envelope
                  (snd (handle_DATA (sample_env first_message) sample_envelope empty_store))))
        (py ''attachments/a.bin'') = Some ''BBB''"
proof -
  let ?ev1 = "sample_env first_message" and ?ev2 = "sample_env second_message"
  let ?st1 = "snd (handle_DATA ?ev1 sample_envelope empty_store)"
  let ?a = "attachment_part (Some (py ''a.bin'')) ''AAA''"
  let ?b = "attachment_part (Some (py ''a.bin'')) ''BBB''"
  have m1: "is_multipart first_message" and m2: "is_multipart second_message"
    by (simp_all add: first_message_def second_message_def)
  have w1: "\<forall>p\<in>set (walk first_message). is_attachment p \<longrightarrow> writable ?ev1 p"
    and w2: "\<forall>p\<in>set (walk second_message). is_attachment p \<longrightarrow> writable ?ev2 p"
    by (simp_all add: first_message_def second_message_def)
  note h1 = handle_DATA_accept [where ev = ?ev1 and envelope = sample_envelope
      and st = empty_store and msg = first_message,
      OF _ body_and_attachments_multipart [OF m1 w1] can_insert_empty]
  have a1: "fst (handle_DATA ?ev1 sample_envelope empty_store) = Inr accepted"
    using h1 by simp
  have f1: "files ?st1 (py ''attachments/a.bin'') = Some ''AAA''"
    using h1 by (simp add: first_message_def)
  have c2: "can_insert ?ev2 (db ?st1)"
    using h1 by (simp add: can_insert_def next_id_def max_rowid_def)
  have a2: "fst (handle_DATA ?ev2 sample_envelope ?st1) = Inr accepted"
    using handle_DATA_accept [where ev = ?ev2 and envelope = sample_envelope
      and st = ?st1 and msg = second_message,
      OF _ body_and_attachments_multipart [OF m2 w2] c2]
    by simp
  have p: "?a \<in> set (walk first_message)" "is_attachment ?a"
    "?b \<in> set (walk second_message)" "is_attachment ?b"
    "get_filename (info ?a) = get_filename (info ?b)"
    by (simp_all add: first_message_def second_message_def)
  from same_filename_overwrites [where ?ev1.0 = ?ev1 and ?ev2.0 = ?ev2
      and ?envelope1.0 = sample_envelope and ?envelope2.0 = sample_envelope
      and st = empty_store and ?m1.0 = first_message and ?m2.0 = second_message,
      OF _ m1 a1 _ m2 a2 p]
  have "files (snd (handle_DATA ?ev2 sample_envelope ?st1)) (py ''attachments/a.bin'') = Some ''BBB''"
    by (simp add: second_message_def)
  with a1 a2 f1 show ?thesis by simp
qed

section \<open>Ids and the order of the inbox\<close>

text \<open>
  C4. In every state the table reaches from its creation by successful insertions, a
  further successful insertion appends one row whose id is greater than the id of
  every row stored before and than the largest id ever given; the inbox query then
  returns the new row first, followed by what it returned before, in strictly
  descending order of id, and it returns every stored row.
\<close>

theorem ids_increase_newest_first:
  assumes "reachable d"
    and "save_email_to_db ev sender recipients subject body date_str attachments d = Inr d'"
  shows "\<exists>r. emails d' = emails d @ [r]
           \<and> (\<forall>r'\<in>set (emails d). row_id r' < row_id r)
           \<and> sqlite_sequence d < row_id r
           \<and> select_emails d' = r # select_emails d
           \<and> sorted_wrt (>) (map row_id (select_emails d'))
           \<and> set (select_emails d') = set (emails d')"
proof -
  let ?r = "\<lparr>row_id = next_id d, row_sender = sender, row_recipients = recipients,
            row_subject = subject, row_body = body, row_date = date_str,
            row_attachments = json_dumps attachments\<rparr>"
  have d': "emails d' = emails d @ [?r]"
    using save_email_to_db_Inr(2) [OF assms(2)] by simp
  have r': "reachable d'"
    using assms by (rule reachable.append)
  have s: "select_emails d = rev (emails d)" "select_emails d' = rev (emails d')"
    using reachable_invariant [OF assms(1)] reachable_invariant [OF r']
    by (simp_all add: select_emails_sorted)
  have "sorted_wrt (>) (map row_id (select_emails d'))"
    using reachable_invariant [OF r'] s(2)
    by (simp add: rev_map [symmetric] sorted_wrt_rev)
  with d' s next_id_greater_sequence [of d] next_id_greater_rows [of _ d] show ?thesis
    by (intro exI [of _ ?r]) auto
qed

theorem ids_increase_newest_first_witness:
  "reachable one_row_db
   \<and> save_email_to_db (sample_env empty_message) (py ''a@x'') (py ''b@y'') (py ''Hi'') []
        (py ''2024-03-09 07:05:00'') [] one_row_db = Inr two_row_db
   \<and> map row_id (emails one_row_db) = [1]
   \<and> map row_id (select_emails two_row_db) = [2, 1]"
proof -
  have s0: "save_email_to_db (sample_env empty_message) (py ''c@z'') (py ''b@y'')
      (py ''(No Subject)'') (py ''first'') (py ''2024-03-09 07:04:00'') [] (init_db None)
      = Inr one_row_db"
    by (simp add: save_email_to_db_def can_insert_def next_id_def max_rowid_def init_db_def
        one_row_db_def Let_def)
  have r: "reachable one_row_db"
    by (rule reachable.append [OF reachable.init s0])
  have s1: "save_email_to_db (sample_env empty_message) (py ''a@x'') (py ''b@y'') (py ''Hi'') []
      (py ''2024-03-09 07:05:00'') [] one_row_db = Inr two_row_db"
    by (simp add: save_email_to_db_def can_insert_def next_id_def max_rowid_def
        one_row_db_def two_row_db_def Let_def)
  from ids_increase_newest_first [OF r s1]
  have "map row_id (select_emails two_row_db) = [2, 1]"
    by (auto simp: one_row_db_def two_row_db_def select_emails_def)
  with r s1 show ?thesis by (simp add: one_row_db_def)
qed

section \<open>The attachments column\<close>

text \<open>
  C10. For an accepted message, in a table with the history of its insertions and an
  inbox that could be listed before: the inbox afterwards lists the new message first,
  and the attachments it shows for it are exactly the list of storage paths that was
  serialised into the row, the same elements in the same order (the empty list for a
  message without attachments).
\<close>

theorem attachments_roundtrip:
  assumes "message_from_bytes ev (content envelope) = Inr msg"
    and "fst (handle_DATA ev envelope st) = Inr accepted"
    and "reachable (db st)"
    and "inbox st = Inr es"
  shows "\<exists>e r. inbox (snd (handle_DATA ev envelope st)) = Inr (e # es)
           \<and> em_attachments e =
               (if is_multipart msg
                then map attachment_path (filter is_attachment (walk msg)) else [])
           \<and> emails (db (snd (handle_DATA ev envelope st))) = emails (db st) @ [r]
           \<and> row_attachments r = json_dumps (em_attachments e)"
proof -
  let ?atts = "if is_multipart msg
               then map attachment_path (filter is_attachment (walk msg)) else []"
  from accepted_attachments [OF assms(1,2)]
  obtain r where r: "emails (db (snd (handle_DATA ev envelope st))) = emails (db st) @ [r]"
    "row_id r = next_id (db st)" "row_attachments r = json_dumps ?atts"
    and w: "is_multipart msg \<longrightarrow> (\<forall>p\<in>set (walk msg). is_attachment p \<longrightarrow> writable ev p)"
    by blast
  have "\<forall>s\<in>set ?atts. list_all json_safe s"
    using w by (auto simp: writable_def intro: fs_encodable_safe)
  then have j: "json_loads (json_dumps ?atts) = Some ?atts"
    by (rule json_roundtrip)
  let ?e = "\<lparr>em_sender = row_sender r, em_recipients = row_recipients r,
             em_subject = row_subject r, em_body = row_body r, em_date = row_date r,
             em_attachments = ?atts\<rparr>"
  have "select_emails (db (snd (handle_DATA ev envelope st))) = r # select_emails (db st)"
    by (rule select_emails_append [OF assms(3) r(1,2)])
  then have "inbox (snd (handle_DATA ev envelope st)) = Inr (?e # es)"
    using assms(4) j r(3) by (simp add: inbox_def)
  with r show ?thesis
    by (intro exI [of _ ?e] exI [of _ r]) simp
qed

theorem attachments_roundtrip_witness:
  "fst (handle_DATA (sample_env mixed_message) sample_envelope empty_store) = Inr accepted
   \<and> reachable (db empty_store)
   \<and> inbox empty_store = Inr []
   \<and> (\<exists>e. inbox (snd (handle_DATA (sample_env mixed_message) sample_envelope empty_store))
              = Inr [e]
          \<and> em_attachments e = [py ''attachments/a.bin'', py ''attachments/b.bin''])"
proof -
  have m: "is_multipart mixed_message"
    by (simp add: mixed_message_def)
  have ok: "fst (handle_DATA (sample_env mixed_message) sample_envelope empty_store) = Inr accepted"
    using handle_DATA_accept [where ev = "sample_env mixed_message" and envelope = sample_envelope
        and st = empty_store and msg = mixed_message,
        OF _ body_and_attachments_multipart [OF m]]
    by (simp add: mixed_message_def)
  have r: "reachable (db empty_store)"
    using reachable.init by (simp add: empty_store_def)
  from attachments_roundtrip [where ev = "sample_env mixed_message" and envelope = sample_envelope
      and st = empty_store and msg = mixed_message and es = "[]", OF _ ok r]
  have "\<exists>e. inbox (snd (handle_DATA (sample_env mixed_message) sample_envelope empty_store))
              = Inr [e]
          \<and> em_attachments e = [py ''attachments/a.bin'', py ''attachments/b.bin'']"
    using m by (auto simp: mixed_message_parts)
  with ok r show ?thesis by simp
qed

end
